theory Spec2Isabelle
  imports Main "HOL-Library.Word" "HOL-Library.Multiset"
begin

section \<open>Data model\<close>

text \<open>
  The program is \<^verbatim>\<open>src/native/compute_statistics.cc\<close>: one \<^verbatim>\<open>main\<close> that scans every
  patient of a database, counts the events whose code string does not start with
  \<^verbatim>\<open>STANFORD_OBS\<close>, builds a histogram of these counts and writes it as JSON.

  Everything that can throw is a value of \<open>error + 'a\<close>; an uncaught exception ends
  \<^verbatim>\<open>main\<close> through \<^verbatim>\<open>std::terminate\<close>.
\<close>

datatype error = UnknownCodeError | DatabaseReadError | OutOfRange

text \<open>
  \<^verbatim>\<open>Event\<close> and \<^verbatim>\<open>Patient\<close> are declared in \<^verbatim>\<open>database.hh\<close>; the program reads
  \<^verbatim>\<open>event.code\<close> (compared with the \<^verbatim>\<open>uint32_t\<close> constant 580 and used as dictionary
  index) and \<^verbatim>\<open>p.events\<close> only.
\<close>

record Event =
  code :: "32 word"

record Patient =
  events :: "Event list"

text \<open>
  Modelled from the spec: \<^verbatim>\<open>Dictionary::operator[]\<close> (\<^verbatim>\<open>database.hh\<close> is not part of the
  sources). The dictionary is an integer-to-string table; looking up an id that has no
  entry fails with \<open>UnknownCodeError\<close>.
\<close>

type_synonym Dictionary = "32 word \<rightharpoonup> string"

definition lookup :: "Dictionary \<Rightarrow> 32 word \<Rightarrow> error + string" where
  "lookup dict c = (case dict c of None \<Rightarrow> Inl UnknownCodeError | Some s \<Rightarrow> Inr s)"

text \<open>
  Modelled from the spec: \<^verbatim>\<open>PatientDatabase::size\<close> and
  \<^verbatim>\<open>PatientDatabaseIterator::get_patient\<close> (\<^verbatim>\<open>database.hh\<close> is not part of the sources).
  \<open>db_size\<close> is the patient count, compared with the \<^verbatim>\<open>uint32_t\<close> loop counter; a
  patient that cannot be read fails with \<open>DatabaseReadError\<close>.
\<close>

record PatientDatabase =
  db_size :: "32 word"
  patients :: "32 word \<rightharpoonup> Patient"

definition get_patient :: "PatientDatabase \<Rightarrow> 32 word \<Rightarrow> error + Patient" where
  "get_patient database patient_id =
     (case patients database patient_id of
        None \<Rightarrow> Inl DatabaseReadError
      | Some p \<Rightarrow> Inr p)"

section \<open>The event classifier (lines 19, 29-35)\<close>

definition target :: string where
  "target = ''STANFORD_OBS''"

text \<open>
  \<^verbatim>\<open>std::string_view::substr(pos, count)\<close>: throws \<^verbatim>\<open>std::out_of_range\<close> when
  \<^verbatim>\<open>pos > size()\<close>, otherwise the view of \<^verbatim>\<open>min(count, size() - pos)\<close> characters from
  \<^verbatim>\<open>pos\<close>.
\<close>

definition substr :: "string \<Rightarrow> nat \<Rightarrow> nat \<Rightarrow> error + string" where
  "substr s pos n =
     (if length s < pos then Inl OutOfRange
      else Inr (take (min n (length s - pos)) (drop pos s)))"

text \<open>
  Lines 29-30: the condition under which \<^verbatim>\<open>valid_events\<close> is incremented for one event.
\<close>

definition is_valid :: "Dictionary \<Rightarrow> Event \<Rightarrow> error + bool" where
  "is_valid dict event =
     (case lookup dict (code event) of
        Inl e \<Rightarrow> Inl e
      | Inr code_str \<Rightarrow>
          (case substr code_str 0 (length target) of
             Inl e \<Rightarrow> Inl e
           | Inr sub \<Rightarrow> Inr (sub \<noteq> target)))"

text \<open>
  Lines 28-36: the loop over one patient's events, on the pair
  \<open>(valid_events, has_ip)\<close> of its two local variables. \<open>valid_events\<close> is a
  \<^verbatim>\<open>uint32_t\<close>: \<open>+ 1\<close> wraps.
\<close>

fun count_events :: "Dictionary \<Rightarrow> Event list \<Rightarrow> 32 word \<times> bool \<Rightarrow> error + 32 word \<times> bool" where
  "count_events dict [] acc = Inr acc"
| "count_events dict (event # rest) (valid_events, has_ip) =
     (case is_valid dict event of
        Inl e \<Rightarrow> Inl e
      | Inr valid \<Rightarrow>
          count_events dict rest
            (if valid then valid_events + 1 else valid_events,
             if code event = 580 then True else has_ip))"

section \<open>The histogram aggregator (lines 15-48)\<close>

text \<open>
  \<^verbatim>\<open>absl::flat_hash_map<uint32_t, uint32_t>\<close>. \<^verbatim>\<open>length_counts[k] += 1\<close> inserts the value 0
  when the key is absent, then adds 1 to the \<^verbatim>\<open>uint32_t\<close> stored there.
\<close>

type_synonym flat_hash_map = "32 word \<rightharpoonup> 32 word"

definition increment :: "flat_hash_map \<Rightarrow> 32 word \<Rightarrow> flat_hash_map" where
  "increment m k = m(k \<mapsto> (case m k of None \<Rightarrow> 0 | Some v \<Rightarrow> v) + 1)"

text \<open>Decimal digits of a number, as \<^verbatim>\<open>operator<<\<close> prints an unsigned integer.\<close>

fun decimal :: "nat \<Rightarrow> string" where
  "decimal n =
     (if n < 10 then [''0123456789'' ! n]
      else decimal (n div 10) @ [''0123456789'' ! (n mod 10)])"

declare decimal.simps [simp del]

record scan_state =
  length_counts :: flat_hash_map
  cout :: "string list"

text \<open>Line 38: the condition of the \<^verbatim>\<open>continue\<close>.\<close>

definition excluded :: "bool \<Rightarrow> bool" where
  "excluded has_ip = (False \<and> \<not> has_ip)"

text \<open>Lines 22-47: the body of the patient loop.\<close>

datatype body_result = Continue | Updated scan_state

definition body :: "PatientDatabase \<Rightarrow> Dictionary \<Rightarrow> 32 word \<Rightarrow> scan_state \<Rightarrow> error + body_result" where
  "body database dict patient_id st =
     (case get_patient database patient_id of
        Inl e \<Rightarrow> Inl e
      | Inr p \<Rightarrow>
          (case count_events dict (events p) (0, False) of
             Inl e \<Rightarrow> Inl e
           | Inr (valid_events, has_ip) \<Rightarrow>
               if excluded has_ip then Inr Continue
               else Inr (Updated
                 \<lparr>length_counts = increment (length_counts st) valid_events,
                  cout = (if patient_id = 0 then cout st @ [decimal (unat valid_events)]
                          else cout st)\<rparr>)))"

text \<open>
  Line 21: the patient loop. The result is the state reached and the exception that
  stopped the loop, if any.
\<close>

function scan :: "PatientDatabase \<Rightarrow> Dictionary \<Rightarrow> 32 word \<Rightarrow> scan_state \<Rightarrow> scan_state \<times> error option" where
  "scan database dict patient_id st =
     (if patient_id < db_size database then
        (case body database dict patient_id st of
           Inl e \<Rightarrow> (st, Some e)
         | Inr Continue \<Rightarrow> scan database dict (patient_id + 1) st
         | Inr (Updated st') \<Rightarrow> scan database dict (patient_id + 1) st')
      else (st, None))"
  by pat_completeness auto
termination
proof -
  have succ: "unat (i + 1) = Suc (unat i)" if "i < n" for i n :: "32 word"
  proof -
    from that have "unat i < unat n" by (simp add: word_less_nat_alt)
    moreover have "unat n < 2 ^ 32" using unsigned_less [of n] by simp
    ultimately have "unat i + unat (1 :: 32 word) < 2 ^ LENGTH(32)" by simp
    then have "unat (i + 1) = unat i + unat (1 :: 32 word)" by (simp only: unat_add_lem)
    then show ?thesis by simp
  qed
  show ?thesis
    by (relation "measure (\<lambda>(database, dict, patient_id, st).
          unat (db_size database) - unat patient_id)")
       (auto simp: succ word_less_nat_alt)
qed

declare scan.simps [simp del]

text \<open>
  The value of \<^verbatim>\<open>valid_events\<close> at line 38 for the patient with index \<open>patient_id\<close>:
  what lines 22-36 compute, without the state.
\<close>

definition valid_events :: "PatientDatabase \<Rightarrow> Dictionary \<Rightarrow> 32 word \<Rightarrow> error + 32 word" where
  "valid_events database dict patient_id =
     (case get_patient database patient_id of
        Inl e \<Rightarrow> Inl e
      | Inr p \<Rightarrow>
          (case count_events dict (events p) (0, False) of
             Inl e \<Rightarrow> Inl e
           | Inr (n, has_ip) \<Rightarrow> Inr n))"

section \<open>The result writer (lines 50-53)\<close>

text \<open>
  The values of \<^verbatim>\<open>nlohmann::json\<close> that occur here. The converting constructor
  \<^verbatim>\<open>json(length_counts)\<close> calls the library's \<^verbatim>\<open>to_json\<close>. Its overload for objects is
  enabled only for a container whose \<^verbatim>\<open>key_type\<close> can construct the JSON string type
  (\<^verbatim>\<open>std::string\<close>); the key type of \<^verbatim>\<open>length_counts\<close> is \<^verbatim>\<open>uint32_t\<close>, which cannot. The
  overload for arrays applies instead: the container is read as the sequence of its
  \<^verbatim>\<open>std::pair\<close> elements, and a pair becomes the two-element array \<^verbatim>\<open>[first, second]\<close>. The
  result is a JSON array with one array \<^verbatim>\<open>[key, value]\<close> for each entry, both unsigned
  numbers; an empty map gives the empty array.
\<close>

datatype json =
    number_unsigned nat
  | array "json list"
  | object "(string \<times> json) list"

text \<open>
  The iteration order of a \<^verbatim>\<open>flat_hash_map\<close> is unspecified. The traversal that
  \<^verbatim>\<open>json(length_counts)\<close> runs is modelled by the order \<open>slots\<close> in which it meets
  the keys: the entries are reported in this order.
\<close>

definition entries :: "32 word list \<Rightarrow> flat_hash_map \<Rightarrow> (32 word \<times> 32 word) list" where
  "entries slots m = List.map_filter (\<lambda>k. map_option (Pair k) (m k)) slots"

definition traverses :: "32 word list \<Rightarrow> flat_hash_map \<Rightarrow> bool" where
  "traverses slots m = (distinct slots \<and> dom m \<subseteq> set slots)"

definition to_json_pair :: "32 word \<times> 32 word \<Rightarrow> json" where
  "to_json_pair kv = array [number_unsigned (unat (fst kv)), number_unsigned (unat (snd kv))]"

definition to_json :: "32 word list \<Rightarrow> flat_hash_map \<Rightarrow> json" where
  "to_json slots m = array (map to_json_pair (entries slots m))"

text \<open>
  The world outside the process: the lines written to standard output, the files, each
  file given by the JSON value whose serialisation it holds, and the paths at which a file
  can be opened for writing.
\<close>

record World =
  stdout :: "string list"
  files :: "string \<rightharpoonup> json"
  openable :: "string \<Rightarrow> bool"

definition output_path :: string where
  "output_path = ''/local-scratch/nigam/projects/ethanid/piton/native/results/final_counts''"

datatype exit_status = Returned | Terminated error

definition initial :: "string list \<Rightarrow> scan_state" where
  "initial out = \<lparr>length_counts = Map.empty, cout = out\<rparr>"

text \<open>
  Lines 10-54. The output stream is opened after the loop, so an exception in the loop
  leaves the files as they were. The constructor of \<^verbatim>\<open>std::ofstream\<close> does not throw and
  the program does not test the stream: when the file cannot be opened, \<^verbatim>\<open>operator<<\<close>
  writes nothing and \<^verbatim>\<open>main\<close> returns as after a write. When it can be opened, the file is
  truncated and receives the serialisation of \<^verbatim>\<open>json(length_counts)\<close>.
\<close>

definition main :: "PatientDatabase \<Rightarrow> Dictionary \<Rightarrow> 32 word list \<Rightarrow> World \<Rightarrow> exit_status \<times> World" where
  "main database dict slots w =
     (case scan database dict 0 (initial (stdout w)) of
        (st, Some e) \<Rightarrow> (Terminated e, w\<lparr>stdout := cout st\<rparr>)
      | (st, None) \<Rightarrow>
          (Returned,
           if openable w output_path
           then w\<lparr>stdout := cout st,
                  files := (files w)(output_path \<mapsto> to_json slots (length_counts st))\<rparr>
           else w\<lparr>stdout := cout st\<rparr>))"

section \<open>The specification's wording, for comparison\<close>

text \<open>
  The specification's valid-event count of a patient: the number of events whose decoded
  code, cut to the length of the prefix, differs from the prefix.
\<close>

definition spec_counted :: "Dictionary \<Rightarrow> Event \<Rightarrow> bool" where
  "spec_counted dict e =
     (case dict (code e) of
        None \<Rightarrow> False
      | Some s \<Rightarrow> take (length target) s \<noteq> target)"

definition spec_valid_event_count :: "Dictionary \<Rightarrow> Event list \<Rightarrow> nat" where
  "spec_valid_event_count dict evs = length (filter (spec_counted dict) evs)"

text \<open>
  The specification's output layout: an object with one member per entry, the key the
  decimal string of the count, the value the frequency.
\<close>

definition spec_object :: "32 word list \<Rightarrow> flat_hash_map \<Rightarrow> json" where
  "spec_object slots m =
     object (map (\<lambda>kv. (decimal (unat (fst kv)), number_unsigned (unat (snd kv))))
       (entries slots m))"

text \<open>The sum of all frequencies of a histogram.\<close>

definition frequency_sum :: "flat_hash_map \<Rightarrow> nat" where
  "frequency_sum m = (\<Sum>k\<in>dom m. unat (the (m k)))"

section \<open>Example inputs\<close>

text \<open>
  A dictionary and the databases of the specification's end-to-end scenarios: one patient
  with three events; two patients, the first without events; no patient; and a patient with
  an event whose code has no dictionary entry.
\<close>

definition example_dict :: Dictionary where
  "example_dict =
     [0 \<mapsto> ''STANFORD_OBS_A'', 1 \<mapsto> ''X'', 2 \<mapsto> ''STANFORD_OBS_B'', 3 \<mapsto> ''Y'']"

definition example_db1 :: PatientDatabase where
  "example_db1 =
     \<lparr>db_size = 1,
      patients = [0 \<mapsto> \<lparr>events = [\<lparr>code = 0\<rparr>, \<lparr>code = 1\<rparr>, \<lparr>code = 2\<rparr>]\<rparr>]\<rparr>"

definition example_db2 :: PatientDatabase where
  "example_db2 =
     \<lparr>db_size = 2,
      patients = [0 \<mapsto> \<lparr>events = []\<rparr>, 1 \<mapsto> \<lparr>events = [\<lparr>code = 3\<rparr>, \<lparr>code = 3\<rparr>]\<rparr>]\<rparr>"

definition example_db_empty :: PatientDatabase where
  "example_db_empty = \<lparr>db_size = 0, patients = Map.empty\<rparr>"

definition example_db_unknown :: PatientDatabase where
  "example_db_unknown =
     \<lparr>db_size = 2,
      patients = [0 \<mapsto> \<lparr>events = [\<lparr>code = 1\<rparr>]\<rparr>, 1 \<mapsto> \<lparr>events = [\<lparr>code = 3\<rparr>, \<lparr>code = 9\<rparr>]\<rparr>]\<rparr>"

definition example_world :: World where
  "example_world = \<lparr>stdout = [], files = Map.empty, openable = (\<lambda>path. True)\<rparr>"

definition example_world_unwritable :: World where
  "example_world_unwritable =
     \<lparr>stdout = [], files = Map.empty, openable = (\<lambda>path. False)\<rparr>"

section \<open>The classifier and the event loop\<close>

lemma substr_0: "substr s 0 n = Inr (take n s)"
  by (simp add: substr_def min_def)

lemma is_valid_Some: "dict (code e) = Some s \<Longrightarrow> is_valid dict e = Inr (take (length target) s \<noteq> target)"
  by (simp add: is_valid_def lookup_def substr_0)

lemma is_valid_None: "dict (code e) = None \<Longrightarrow> is_valid dict e = Inl UnknownCodeError"
  by (simp add: is_valid_def lookup_def)

lemma is_valid_spec: "dict (code e) \<noteq> None \<Longrightarrow> is_valid dict e = Inr (spec_counted dict e)"
  by (auto simp: is_valid_Some spec_counted_def)

lemma count_events_total:
  "\<forall>e\<in>set evs. dict (code e) \<noteq> None \<Longrightarrow>
   count_events dict evs (c, h) =
     Inr (c + of_nat (spec_valid_event_count dict evs), h \<or> (\<exists>e\<in>set evs. code e = 580))"
proof (induction evs arbitrary: c h)
  case Nil
  then show ?case by (simp add: spec_valid_event_count_def)
next
  case (Cons e evs)
  then have v: "is_valid dict e = Inr (spec_counted dict e)" by (simp add: is_valid_spec)
  from Cons show ?case
    by (auto simp: v spec_valid_event_count_def)
qed

lemma count_events_fails:
  "\<exists>e\<in>set evs. dict (code e) = None \<Longrightarrow> count_events dict evs acc = Inl UnknownCodeError"
proof (induction evs arbitrary: acc)
  case Nil
  then show ?case by simp
next
  case (Cons e evs)
  obtain c h where acc: "acc = (c, h)" by (cases acc)
  show ?case
  proof (cases "dict (code e)")
    case None
    then show ?thesis by (simp add: acc is_valid_None)
  next
    case (Some s)
    with Cons.prems have "\<exists>e\<in>set evs. dict (code e) = None" by auto
    then show ?thesis using Cons.IH by (simp add: acc is_valid_Some Some)
  qed
qed

lemma count_events_error: "count_events dict evs acc = Inl e \<Longrightarrow> e = UnknownCodeError"
proof (cases "\<exists>e\<in>set evs. dict (code e) = None")
  case True
  then show "count_events dict evs acc = Inl e \<Longrightarrow> e = UnknownCodeError" by (simp add: count_events_fails)
next
  case False
  then have "\<forall>e\<in>set evs. dict (code e) \<noteq> None" by simp
  then show "count_events dict evs acc = Inl e \<Longrightarrow> e = UnknownCodeError"
    by (cases acc) (simp add: count_events_total)
qed

section \<open>The patient loop\<close>

lemma word_succ: "unat (i + 1) = Suc (unat i)" if "i < n" for i n :: "32 word"
proof -
  from that have "unat i < unat n" by (simp add: word_less_nat_alt)
  moreover have "unat n < 2 ^ 32" using unsigned_less [of n] by simp
  ultimately have "unat i + unat (1 :: 32 word) < 2 ^ LENGTH(32)" by simp
  then have "unat (i + 1) = unat i + unat (1 :: 32 word)" by (simp only: unat_add_lem)
  then show ?thesis by simp
qed

lemma not_excluded: "\<not> excluded has_ip"
  by (simp add: excluded_def)

lemma body_eq:
  "body database dict i st =
     (case valid_events database dict i of
        Inl e \<Rightarrow> Inl e
      | Inr n \<Rightarrow> Inr (Updated \<lparr>length_counts = increment (length_counts st) n,
                  cout = (if i = 0 then cout st @ [decimal (unat n)] else cout st)\<rparr>))"
  by (simp add: body_def valid_events_def not_excluded split: sum.splits prod.splits)

lemma scan_step:
  "i < db_size database \<Longrightarrow> valid_events database dict i = Inr n \<Longrightarrow>
   scan database dict i st =
     scan database dict (i + 1) \<lparr>length_counts = increment (length_counts st) n,
                  cout = (if i = 0 then cout st @ [decimal (unat n)] else cout st)\<rparr>"
  by (subst scan.simps) (simp add: body_eq)

lemma scan_abort:
  "i < db_size database \<Longrightarrow> valid_events database dict i = Inl e \<Longrightarrow>
   scan database dict i st = (st, Some e)"
  by (subst scan.simps) (simp add: body_eq)

lemma scan_done:
  "\<not> i < db_size database \<Longrightarrow> scan database dict i st = (st, None)"
  by (subst scan.simps) simp

lemma scan_invariant:
  assumes "scan database dict i st = (st', None)"
    and "P i (length_counts st)"
    and "i \<le> db_size database"
    and "\<And>j h n. j < db_size database \<Longrightarrow> P j h \<Longrightarrow> valid_events database dict j = Inr n
           \<Longrightarrow> P (j + 1) (increment h n)"
  shows "P (db_size database) (length_counts st')"
  using assms
proof (induction database dict i st rule: scan.induct)
  case (1 database dict i st)
  show ?case
  proof (cases "i < db_size database")
    case False
    with "1.prems"(3) have "i = db_size database" by simp
    moreover from False "1.prems"(1) have "st' = st" by (simp add: scan_done)
    ultimately show ?thesis using "1.prems"(2) by simp
  next
    case True
    show ?thesis
    proof (cases "valid_events database dict i")
      case (Inl e)
      with True "1.prems"(1) show ?thesis by (simp add: scan_abort)
    next
      case (Inr n)
      let ?st = "\<lparr>length_counts = increment (length_counts st) n,
                  cout = (if i = 0 then cout st @ [decimal (unat n)] else cout st)\<rparr>"
      have b: "body database dict i st = Inr (Updated ?st)" by (simp add: body_eq Inr)
      have r: "scan database dict (i + 1) ?st = (st', None)"
        using "1.prems"(1) scan_step [OF True Inr, of st] by simp
      have p: "P (i + 1) (length_counts ?st)"
        using "1.prems"(4) [OF True "1.prems"(2) Inr] by simp
      have l: "i + 1 \<le> db_size database" using True by (rule inc_le)
      show ?thesis
        by (rule "1.IH"(2) [OF True b refl r p l]) (rule "1.prems"(4))
    qed
  qed
qed

section \<open>The histogram\<close>

lemma increment_apply:
  "increment m n k = (if k = n then Some ((case m n of None \<Rightarrow> 0 | Some v \<Rightarrow> v) + 1) else m k)"
  by (simp add: increment_def)

lemma dom_increment: "dom (increment m n) = insert n (dom m)"
  by (simp add: increment_def)

lemma unat_le_total:
  assumes "finite (dom m)" and "m k = Some v"
  shows "unat v \<le> frequency_sum m"
proof -
  from assms(2) have "k \<in> dom m" by auto
  with assms(1) have "unat (the (m k)) \<le> (\<Sum>k\<in>dom m. unat (the (m k)))"
    by (intro member_le_sum) auto
  with assms(2) show ?thesis by (simp add: frequency_sum_def)
qed

lemma unat_plus_one: "unat v < 2 ^ 32 - 1 \<Longrightarrow> unat (v + 1) = Suc (unat v)" for v :: "32 word"
proof -
  assume "unat v < 2 ^ 32 - 1"
  then have "unat v + unat (1 :: 32 word) < 2 ^ LENGTH(32)" by simp
  then have "unat (v + 1) = unat v + unat (1 :: 32 word)" by (simp only: unat_add_lem)
  then show ?thesis by simp
qed

lemma total_increment:
  assumes fin: "finite (dom m)" and bound: "frequency_sum m < 2 ^ 32 - 1"
  shows "frequency_sum (increment m n) = Suc (frequency_sum m)"
proof (cases "m n")
  case None
  then have notin: "n \<notin> dom m" by auto
  have "frequency_sum (increment m n) = (\<Sum>k\<in>insert n (dom m). unat (the (increment m n k)))"
    by (simp add: frequency_sum_def dom_increment)
  also have "\<dots> = unat (the (increment m n n)) + (\<Sum>k\<in>dom m. unat (the (increment m n k)))"
    using fin notin by simp
  also have "(\<Sum>k\<in>dom m. unat (the (increment m n k))) = (\<Sum>k\<in>dom m. unat (the (m k)))"
    using notin by (intro sum.cong) (auto simp: increment_apply)
  also have "unat (the (increment m n n)) = 1"
    by (simp add: increment_apply None)
  finally show ?thesis by (simp add: frequency_sum_def)
next
  case (Some v)
  then have mem: "n \<in> dom m" by auto
  have le: "unat v \<le> frequency_sum m" using fin Some by (rule unat_le_total)
  with bound have v1: "unat (v + 1) = Suc (unat v)" by (intro unat_plus_one) simp
  have rest: "(\<Sum>k\<in>dom m - {n}. unat (the (increment m n k))) = (\<Sum>k\<in>dom m - {n}. unat (the (m k)))"
    by (intro sum.cong) (auto simp: increment_apply)
  have "frequency_sum (increment m n) = (\<Sum>k\<in>dom m. unat (the (increment m n k)))"
    using mem by (simp add: frequency_sum_def dom_increment insert_absorb)
  also have "\<dots> = unat (the (increment m n n)) + (\<Sum>k\<in>dom m - {n}. unat (the (increment m n k)))"
    using fin mem by (simp add: sum.remove)
  also have "\<dots> = Suc (unat v) + (\<Sum>k\<in>dom m - {n}. unat (the (m k)))"
    by (simp add: rest increment_apply Some v1)
  also have "\<dots> = Suc (unat (the (m n)) + (\<Sum>k\<in>dom m - {n}. unat (the (m k))))"
    by (simp add: Some)
  also have "unat (the (m n)) + (\<Sum>k\<in>dom m - {n}. unat (the (m k))) = frequency_sum m"
    using fin mem by (simp add: frequency_sum_def sum.remove)
  finally show ?thesis .
qed

lemma increment_nonzero:
  assumes fin: "finite (dom m)" and bound: "frequency_sum m < 2 ^ 32 - 1"
  shows "the (increment m n n) \<noteq> 0"
proof (cases "m n")
  case None
  then show ?thesis by (simp add: increment_apply)
next
  case (Some v)
  have "unat v \<le> frequency_sum m" using fin Some by (rule unat_le_total)
  with bound have "unat (v + 1) = Suc (unat v)" by (intro unat_plus_one) simp
  then have "v + 1 \<noteq> 0" by (metis Zero_not_Suc unat_0)
  then show ?thesis by (simp add: increment_apply Some)
qed

lemma word_less_succ: "j < n \<Longrightarrow> i < j + 1 \<longleftrightarrow> i < j \<or> i = j" for i j n :: "32 word"
proof -
  assume "j < n"
  then have "unat (j + 1) = Suc (unat j)" by (rule word_succ)
  then have "i < j + 1 \<longleftrightarrow> unat i < Suc (unat j)" by (simp add: word_less_nat_alt)
  also have "\<dots> \<longleftrightarrow> unat i < unat j \<or> unat i = unat j" by auto
  also have "\<dots> \<longleftrightarrow> i < j \<or> i = j"
    by (simp add: word_less_nat_alt word_unat_eq_iff)
  finally show ?thesis .
qed

lemma bound_below_size: "j < n \<Longrightarrow> unat j < 2 ^ 32 - 1" for j n :: "32 word"
proof -
  assume "j < n"
  then have "unat j < unat n" by (simp add: word_less_nat_alt)
  moreover have "unat n < 2 ^ 32" using unsigned_less [of n] by simp
  ultimately show ?thesis by simp
qed

lemma scan_histogram:
  assumes run: "scan database dict 0 (initial out) = (st, None)"
  shows "finite (dom (length_counts st)) \<and>
         frequency_sum (length_counts st) = unat (db_size database) \<and>
         (\<forall>k v. length_counts st k = Some v \<longrightarrow>
            v \<noteq> 0 \<and> (\<exists>i<db_size database. valid_events database dict i = Inr k)) \<and>
         (\<forall>i<db_size database. \<exists>n. valid_events database dict i = Inr n \<and> n \<in> dom (length_counts st))"
    (is "?P (db_size database) (length_counts st)")
proof (rule scan_invariant [where P = ?P, OF run])
  show "?P 0 (length_counts (initial out))"
    by (simp add: initial_def frequency_sum_def)
  show "0 \<le> db_size database" by simp
next
  fix j h n
  assume lt: "j < db_size database" and inv: "?P j h"
    and ve: "valid_events database dict j = Inr n"
  from inv have fin: "finite (dom h)" and tot: "frequency_sum h = unat j"
    and keys: "\<And>k v. h k = Some v \<Longrightarrow> v \<noteq> 0 \<and> (\<exists>i<j. valid_events database dict i = Inr k)"
    and pats: "\<And>i. i < j \<Longrightarrow> \<exists>n. valid_events database dict i = Inr n \<and> n \<in> dom h"
    by blast+
  have bound: "frequency_sum h < 2 ^ 32 - 1" using bound_below_size [OF lt] tot by simp
  have less: "\<And>i. i < j + 1 \<longleftrightarrow> i < j \<or> i = j" using lt by (rule word_less_succ)
  have 1: "finite (dom (increment h n))" using fin by (simp add: dom_increment)
  have 2: "frequency_sum (increment h n) = unat (j + 1)"
    using total_increment [OF fin bound, of n] tot word_succ [OF lt] by simp
  have 3: "v \<noteq> 0 \<and> (\<exists>i<j + 1. valid_events database dict i = Inr k)"
    if "increment h n k = Some v" for k v
  proof (cases "k = n")
    case True
    with that increment_nonzero [OF fin bound, of n] have "v \<noteq> 0" by auto
    moreover have "\<exists>i<j + 1. valid_events database dict i = Inr k"
      using ve True less by auto
    ultimately show ?thesis ..
  next
    case False
    with that have "h k = Some v" by (simp add: increment_apply)
    from keys [OF this] show ?thesis using less by auto
  qed
  have 4: "\<exists>n'. valid_events database dict i = Inr n' \<and> n' \<in> dom (increment h n)"
    if "i < j + 1" for i
  proof (cases "i = j")
    case True
    then show ?thesis using ve by (simp add: dom_increment)
  next
    case False
    with that less have "i < j" by simp
    from pats [OF this] show ?thesis by (auto simp: dom_increment)
  qed
  from 1 2 3 4 show "?P (j + 1) (increment h n)" by blast
qed

section \<open>Failing runs, standard output and traversal order\<close>

lemma scan_reaches_failure:
  assumes "i \<le> j" and "j < db_size database" and "valid_events database dict j = Inl e"
  shows "\<exists>st' e'. scan database dict i st = (st', Some e')"
  using assms
proof (induction database dict i st rule: scan.induct)
  case (1 database dict i st)
  from "1.prems" have lt: "i < db_size database" by simp
  show ?case
  proof (cases "valid_events database dict i")
    case (Inl e')
    with lt show ?thesis by (simp add: scan_abort)
  next
    case (Inr n)
    let ?st = "\<lparr>length_counts = increment (length_counts st) n,
                cout = (if i = 0 then cout st @ [decimal (unat n)] else cout st)\<rparr>"
    have b: "body database dict i st = Inr (Updated ?st)" by (simp add: body_eq Inr)
    from Inr "1.prems"(3) have "i \<noteq> j" by auto
    with "1.prems"(1) have "i < j" by simp
    then have l: "i + 1 \<le> j" by (rule inc_le)
    from "1.IH"(2) [OF lt b refl l "1.prems"(2) "1.prems"(3)]
    show ?thesis by (simp add: scan_step [OF lt Inr])
  qed
qed

lemma scan_error:
  "scan database dict i st = (st', Some e) \<Longrightarrow>
   \<exists>j<db_size database. valid_events database dict j = Inl e"
proof (induction database dict i st rule: scan.induct)
  case (1 database dict i st)
  show ?case
  proof (cases "i < db_size database")
    case False
    with "1.prems" show ?thesis by (simp add: scan_done)
  next
    case True
    show ?thesis
    proof (cases "valid_events database dict i")
      case (Inl e')
      with True "1.prems" show ?thesis by (auto simp: scan_abort)
    next
      case (Inr n)
      let ?st = "\<lparr>length_counts = increment (length_counts st) n,
                cout = (if i = 0 then cout st @ [decimal (unat n)] else cout st)\<rparr>"
      have b: "body database dict i st = Inr (Updated ?st)" by (simp add: body_eq Inr)
      have r: "scan database dict (i + 1) ?st = (st', Some e)"
        using "1.prems" scan_step [OF True Inr, of st] by simp
      from "1.IH"(2) [OF True b refl r] show ?thesis .
    qed
  qed
qed

lemma scan_cout_independent:
  "length_counts st1 = length_counts st2 \<Longrightarrow>
   length_counts (fst (scan database dict i st1)) = length_counts (fst (scan database dict i st2)) \<and>
   snd (scan database dict i st1) = snd (scan database dict i st2)"
proof (induction database dict i st1 arbitrary: st2 rule: scan.induct)
  case (1 database dict i st1)
  show ?case
  proof (cases "i < db_size database")
    case False
    with "1.prems" show ?thesis by (simp add: scan_done)
  next
    case True
    show ?thesis
    proof (cases "valid_events database dict i")
      case (Inl e')
      with True "1.prems" show ?thesis by (simp add: scan_abort)
    next
      case (Inr n)
      let ?st = "\<lambda>st. \<lparr>length_counts = increment (length_counts st) n,
                cout = (if i = 0 then cout st @ [decimal (unat n)] else cout st)\<rparr>"
      have b: "body database dict i st1 = Inr (Updated (?st st1))" by (simp add: body_eq Inr)
      have eq: "length_counts (?st st1) = length_counts (?st st2)" using "1.prems" by simp
      from "1.IH"(2) [OF True b refl eq] show ?thesis
        by (simp add: scan_step [OF True Inr])
    qed
  qed
qed

lemma entries_eq:
  "entries slots m = map (\<lambda>k. (k, the (m k))) (filter (\<lambda>k. m k \<noteq> None) slots)"
  by (induction slots) (auto simp: entries_def List.map_filter_simps split: option.splits)

lemma mset_entries:
  assumes "traverses slots m"
  shows "mset (entries slots m) = image_mset (\<lambda>k. (k, the (m k))) (mset_set (dom m))"
proof -
  from assms have d: "distinct slots" and s: "dom m \<subseteq> set slots"
    by (simp_all add: traverses_def)
  have "set (filter (\<lambda>k. m k \<noteq> None) slots) = dom m" using s by (auto simp: dom_def)
  moreover have "distinct (filter (\<lambda>k. m k \<noteq> None) slots)" using d by simp
  ultimately have "mset (filter (\<lambda>k. m k \<noteq> None) slots) = mset_set (dom m)"
    by (metis mset_set_set)
  then show ?thesis by (simp add: entries_eq)
qed

lemma count_events_replicate:
  assumes "is_valid dict ev = Inr True"
  shows "count_events dict (replicate n ev) (c, h) = Inr (c + of_nat n, h \<or> (0 < n \<and> code ev = 580))"
  using assms by (induction n arbitrary: c h) auto

section \<open>Evaluation on the examples\<close>

lemma valid_X: "is_valid example_dict \<lparr>code = 1\<rparr> = Inr True"
  by (simp add: is_valid_def lookup_def substr_def target_def example_dict_def)

lemma counted_X: "spec_counted example_dict \<lparr>code = 1\<rparr>"
  by (simp add: spec_counted_def target_def example_dict_def)

lemma spec_count_replicate:
  "spec_valid_event_count dict (replicate n ev) = (if spec_counted dict ev then n else 0)"
  by (simp add: spec_valid_event_count_def)

lemmas run_defs =
  scan.simps body_def get_patient_def excluded_def increment_def is_valid_def lookup_def
  substr_def target_def initial_def decimal.simps valid_events_def

lemma example_scan1:
  "scan example_db1 example_dict 0 (initial []) =
     (\<lparr>length_counts = [1 \<mapsto> 1], cout = [''1'']\<rparr>, None)"
  by (simp add: run_defs example_db1_def example_dict_def)

lemma example_scan2:
  "scan example_db2 example_dict 0 (initial []) =
     (\<lparr>length_counts = [0 \<mapsto> 1, 2 \<mapsto> 1], cout = [''0'']\<rparr>, None)"
  by (simp add: run_defs example_db2_def example_dict_def)

lemma example_scan_empty:
  "scan example_db_empty example_dict 0 (initial []) =
     (\<lparr>length_counts = Map.empty, cout = []\<rparr>, None)"
  by (simp add: run_defs example_db_empty_def)

lemma main_unopened:
  "scan database dict 0 (initial (stdout w)) = (st, None) \<Longrightarrow> \<not> openable w output_path \<Longrightarrow>
   main database dict slots w = (Returned, w\<lparr>stdout := cout st\<rparr>)"
  by (simp add: main_def)

lemma main_returned:
  "scan database dict 0 (initial (stdout w)) = (st, None) \<Longrightarrow> openable w output_path \<Longrightarrow>
   main database dict slots w =
     (Returned, w\<lparr>stdout := cout st,
                    files := (files w)(output_path \<mapsto> to_json slots (length_counts st))\<rparr>)"
  by (simp add: main_def)

lemma main_terminated:
  "scan database dict 0 (initial (stdout w)) = (st, Some e) \<Longrightarrow>
   main database dict slots w = (Terminated e, w\<lparr>stdout := cout st\<rparr>)"
  by (simp add: main_def)

lemma example_world_stdout: "stdout example_world = []"
  by (simp add: example_world_def)

lemma example_world_openable: "openable example_world path"
  by (simp add: example_world_def)

lemma word_less_2: "j < 2 \<Longrightarrow> j = 0 \<or> j = 1" for j :: "32 word"
proof -
  assume "j < 2"
  then have "unat j < 2" by (simp add: word_less_nat_alt)
  then have "unat j = 0 \<or> unat j = 1" by auto
  then show ?thesis by (auto simp: word_unat_eq_iff)
qed

lemma count_events_succeeds:
  assumes "count_events dict evs acc = Inr r"
  shows "\<forall>e\<in>set evs. dict (code e) \<noteq> None"
proof (rule ccontr)
  assume "\<not> (\<forall>e\<in>set evs. dict (code e) \<noteq> None)"
  then have "\<exists>e\<in>set evs. dict (code e) = None" by simp
  then have "count_events dict evs acc = Inl UnknownCodeError" by (rule count_events_fails)
  with assms show False by simp
qed

section \<open>The claims\<close>

subsection \<open>C1: the valid-event count of a patient\<close>

text \<open>
  C1, as stated, fails: the per-patient count is a \<^verbatim>\<open>uint32_t\<close>. A patient with
  \<open>2 ^ 32\<close> events that all decode to \<^verbatim>\<open>X\<close> has \<open>2 ^ 32\<close> events whose truncated
  code differs from the prefix, and the loop ends with the count 0.
\<close>

theorem C1_counterexample:
  "count_events example_dict (replicate (2 ^ 32) \<lparr>code = 1\<rparr>) (0, False) = Inr (0, False) \<and>
   spec_valid_event_count example_dict (replicate (2 ^ 32) \<lparr>code = 1\<rparr>) = 2 ^ 32"
proof
  have "of_nat (2 ^ 32) = (0 :: 32 word)" by simp
  then show "count_events example_dict (replicate (2 ^ 32) \<lparr>code = 1\<rparr>) (0, False) = Inr (0, False)"
    using count_events_replicate [OF valid_X, of "2 ^ 32" 0 False] by simp
  show "spec_valid_event_count example_dict (replicate (2 ^ 32) \<lparr>code = 1\<rparr>) = 2 ^ 32"
    by (simp only: spec_count_replicate counted_X if_True)
qed

text \<open>
  C1, amended: for every patient whose event codes all have a dictionary entry, the count
  that the scan produces equals, modulo \<open>2 ^ 32\<close>, the number of the patient's events whose
  decoded code, truncated to the length of the prefix, is not equal to the prefix
  \<^verbatim>\<open>STANFORD_OBS\<close>; it equals this number itself when the number is below \<open>2 ^ 32\<close>. An
  event whose truncated code equals the prefix is not counted.
\<close>

theorem C1_valid_event_count:
  assumes "patients database patient_id = Some p"
    and "\<forall>e\<in>set (events p). dict (code e) \<noteq> None"
  shows "\<exists>n. valid_events database dict patient_id = Inr n \<and>
             unat n = spec_valid_event_count dict (events p) mod 2 ^ 32 \<and>
             (spec_valid_event_count dict (events p) < 2 ^ 32 \<longrightarrow>
                unat n = spec_valid_event_count dict (events p))"
proof -
  have "valid_events database dict patient_id =
          Inr (of_nat (spec_valid_event_count dict (events p)))"
    using assms(1) count_events_total [OF assms(2), of 0 False]
    by (simp add: valid_events_def get_patient_def)
  moreover have "unat (of_nat (spec_valid_event_count dict (events p)) :: 32 word) =
      spec_valid_event_count dict (events p) mod 2 ^ 32"
    by (simp add: unat_of_nat)
  ultimately show ?thesis by simp
qed

theorem C1_valid_event_count_witness:
  "\<exists>n. valid_events example_db1 example_dict 0 = Inr n \<and> unat n = 1"
  using C1_valid_event_count [of example_db1 0
      "\<lparr>events = [\<lparr>code = 0\<rparr>, \<lparr>code = 1\<rparr>, \<lparr>code = 2\<rparr>]\<rparr>" example_dict]
  by (simp add: example_db1_def example_dict_def spec_valid_event_count_def spec_counted_def
        target_def)

subsection \<open>C2: the frequencies add up to the number of patients\<close>

text \<open>
  C2: when the scan completes without an exception, the sum of all frequencies of the final
  histogram equals the number of patients of the database.
\<close>

theorem C2_frequency_sum:
  assumes "scan database dict 0 (initial out) = (st, None)"
  shows "frequency_sum (length_counts st) = unat (db_size database)"
  using scan_histogram [OF assms] by simp

theorem C2_frequency_sum_witness:
  "frequency_sum [0 \<mapsto> 1, 2 \<mapsto> 1] = unat (db_size example_db2)"
  using C2_frequency_sum [OF example_scan2] by simp

subsection \<open>C3: the layout of the output\<close>

text \<open>
  C3, as stated, fails: for the database with one patient and one valid event the file
  holds the array \<^verbatim>\<open>[[1,1]]\<close>, not the object with the key \<^verbatim>\<open>"1"\<close> and the value 1.
\<close>

theorem C3_counterexample:
  "files (snd (main example_db1 example_dict [1] example_world)) output_path =
     Some (array [array [number_unsigned 1, number_unsigned 1]]) \<and>
   files (snd (main example_db1 example_dict [1] example_world)) output_path \<noteq>
     Some (spec_object [1] [1 \<mapsto> 1])"
proof -
  have "scan example_db1 example_dict 0 (initial (stdout example_world)) =
     (\<lparr>length_counts = [1 \<mapsto> 1], cout = [''1'']\<rparr>, None)"
    by (simp only: example_world_stdout example_scan1)
  from main_returned [OF this example_world_openable, of "[1]"] show ?thesis
    by (simp add: to_json_def to_json_pair_def entries_def List.map_filter_simps spec_object_def)
qed

text \<open>
  C3, amended: the output written at the end of a successful run, when the output file can
  be opened, is a JSON array with one
  element for each distinct valid-event count that was observed; each element is the
  two-element array of the count and of its patient frequency, both as unsigned numbers.
  The order of the elements is that of the traversal of the hash map.
\<close>

theorem C3_output_layout:
  assumes "scan database dict 0 (initial (stdout w)) = (st, None)"
    and "traverses slots (length_counts st)"
    and "openable w output_path"
  shows "\<exists>js. files (snd (main database dict slots w)) output_path = Some (array js) \<and>
           mset js =
             image_mset
               (\<lambda>k. array [number_unsigned (unat k),
                             number_unsigned (unat (the (length_counts st k)))])
               (mset_set (dom (length_counts st)))"
proof -
  let ?js = "map to_json_pair (entries slots (length_counts st))"
  have "files (snd (main database dict slots w)) output_path = Some (array ?js)"
    by (simp add: main_returned [OF assms(1) assms(3)] to_json_def)
  moreover have "mset ?js =
      image_mset to_json_pair
        (image_mset (\<lambda>k. (k, the (length_counts st k))) (mset_set (dom (length_counts st))))"
    by (simp add: mset_entries [OF assms(2)])
  then have "mset ?js =
      image_mset
        (\<lambda>k. array [number_unsigned (unat k), number_unsigned (unat (the (length_counts st k)))])
        (mset_set (dom (length_counts st)))"
    by (simp add: image_mset.compositionality comp_def to_json_pair_def)
  ultimately show ?thesis by blast
qed

theorem C3_output_layout_witness:
  "\<exists>js. files (snd (main example_db2 example_dict [2, 0] example_world)) output_path =
          Some (array js) \<and>
        mset js =
          {#array [number_unsigned 0, number_unsigned 1],
            array [number_unsigned 2, number_unsigned 1]#}"
proof -
  have run: "scan example_db2 example_dict 0 (initial (stdout example_world)) =
     (\<lparr>length_counts = [0 \<mapsto> 1, 2 \<mapsto> 1], cout = [''0'']\<rparr>, None)"
    by (simp only: example_world_stdout example_scan2)
  have tr: "traverses [2, 0] (length_counts \<lparr>length_counts = [0 \<mapsto> 1, 2 \<mapsto> 1], cout = [''0'']\<rparr>)"
    by (simp add: traverses_def)
  have "mset_set {0, 2 :: 32 word} = {#0, 2#}"
    by simp
  with C3_output_layout [OF run tr example_world_openable] show ?thesis
    by (simp add: insert_commute)
qed

subsection \<open>C4: the exclusion gate is never taken\<close>

text \<open>
  C4: the condition of the \<^verbatim>\<open>continue\<close> is false whatever \<open>has_ip\<close> is, the loop body
  never takes the \<^verbatim>\<open>continue\<close>, and after a successful run the count of every patient of
  the database is a key of the histogram.
\<close>

theorem C4_gate_unreachable:
  assumes "scan database dict 0 (initial out) = (st, None)"
    and "i < db_size database"
  shows "\<not> excluded has_ip \<and> body database dict j s \<noteq> Inr Continue \<and>
         (\<exists>n. valid_events database dict i = Inr n \<and> length_counts st n \<noteq> None)"
proof -
  have "body database dict j s \<noteq> Inr Continue"
    by (simp add: body_eq split: sum.splits)
  moreover from scan_histogram [OF assms(1)] assms(2)
  have "\<exists>n. valid_events database dict i = Inr n \<and> length_counts st n \<noteq> None"
    by (auto simp: dom_def)
  ultimately show ?thesis by (simp add: not_excluded)
qed

theorem C4_gate_unreachable_witness:
  "\<not> excluded False \<and> body example_db2 example_dict 1 (initial []) \<noteq> Inr Continue \<and>
   (\<exists>n. valid_events example_db2 example_dict 1 = Inr n \<and> [0 \<mapsto> 1, 2 \<mapsto> (1 :: 32 word)] n \<noteq> None)"
  using C4_gate_unreachable [OF example_scan2, of 1 False 1 "initial []"]
  by (simp add: example_db2_def)

subsection \<open>C5: codes shorter than the prefix\<close>

text \<open>
  C5: an event whose decoded code is strictly shorter than the prefix is classified valid
  and is counted.
\<close>

theorem C5_short_code_valid:
  assumes "dict (code event) = Some code_str"
    and "length code_str < length target"
  shows "is_valid dict event = Inr True \<and>
         count_events dict (event # rest) (n, has_ip) =
           count_events dict rest (n + 1, if code event = 580 then True else has_ip)"
proof -
  have "take (length target) code_str \<noteq> target"
  proof
    assume "take (length target) code_str = target"
    then have "length (take (length target) code_str) = length target" by (rule arg_cong)
    with assms(2) show False by simp
  qed
  with assms(1) have "is_valid dict event = Inr True" by (simp add: is_valid_Some)
  then show ?thesis by simp
qed

theorem C5_short_code_valid_witness:
  "is_valid example_dict \<lparr>code = 1\<rparr> = Inr True \<and>
   count_events example_dict [\<lparr>code = 1\<rparr>] (0, False) = Inr (1, False)"
  using C5_short_code_valid [of example_dict "\<lparr>code = 1\<rparr>" "''X''" "[]" 0 False]
  by (simp add: example_dict_def target_def)

subsection \<open>C6: an unknown code aborts the run before the output\<close>

text \<open>
  C6: when some event of some patient has a code without dictionary entry, \<^verbatim>\<open>main\<close> ends
  with an exception and the files are those from before the run: no output file is
  written. When every patient can be read, the exception is \<open>UnknownCodeError\<close>.
\<close>

theorem C6_abort_before_output:
  assumes "i < db_size database"
    and "patients database i = Some p"
    and "e \<in> set (events p)"
    and "dict (code e) = None"
  shows "\<exists>err. fst (main database dict slots w) = Terminated err \<and>
           files (snd (main database dict slots w)) = files w \<and>
           ((\<forall>j<db_size database. patients database j \<noteq> None) \<longrightarrow> err = UnknownCodeError)"
proof -
  from assms(3,4) have "count_events dict (events p) (0, False) = Inl UnknownCodeError"
    by (intro count_events_fails) blast
  with assms(2) have "valid_events database dict i = Inl UnknownCodeError"
    by (simp add: valid_events_def get_patient_def)
  from scan_reaches_failure [OF _ assms(1) this, of 0 "initial (stdout w)"]
  obtain st' err where run: "scan database dict 0 (initial (stdout w)) = (st', Some err)"
    by auto
  have m: "main database dict slots w = (Terminated err, w\<lparr>stdout := cout st'\<rparr>)"
    using run by (rule main_terminated)
  have "err = UnknownCodeError" if all: "\<forall>j<db_size database. patients database j \<noteq> None"
  proof -
    from scan_error [OF run] obtain j where j: "j < db_size database"
      and ve: "valid_events database dict j = Inl err" by blast
    from all j obtain q where "patients database j = Some q" by auto
    with ve show ?thesis
      by (auto simp: valid_events_def get_patient_def split: sum.splits prod.splits
               dest: count_events_error)
  qed
  with m show ?thesis by simp
qed

theorem C6_abort_before_output_witness:
  "fst (main example_db_unknown example_dict [] example_world) = Terminated UnknownCodeError \<and>
   files (snd (main example_db_unknown example_dict [] example_world)) = files example_world"
proof -
  have lt: "1 < db_size example_db_unknown"
    by (simp add: example_db_unknown_def)
  have p: "patients example_db_unknown 1 = Some \<lparr>events = [\<lparr>code = 3\<rparr>, \<lparr>code = 9\<rparr>]\<rparr>"
    by (simp add: example_db_unknown_def)
  have e: "\<lparr>code = 9\<rparr> \<in> set (events \<lparr>events = [\<lparr>code = 3\<rparr>, \<lparr>code = 9\<rparr>]\<rparr>)"
    by simp
  have d: "example_dict (code \<lparr>code = 9\<rparr>) = None"
    by (simp add: example_dict_def)
  have all: "\<forall>j<db_size example_db_unknown. patients example_db_unknown j \<noteq> None"
    by (auto simp: example_db_unknown_def dest: word_less_2)
  from C6_abort_before_output [of 1 example_db_unknown "\<lparr>events = [\<lparr>code = 3\<rparr>, \<lparr>code = 9\<rparr>]\<rparr>"
      "\<lparr>code = 9\<rparr>" example_dict "[]" example_world, OF lt p e d] all
  show ?thesis by auto
qed

subsection \<open>C7: no zero frequency\<close>

text \<open>
  C7: every frequency stored in the final histogram is at least 1, and every key of the
  histogram is the valid-event count of some patient of the database.
\<close>

theorem C7_no_zero_frequency:
  assumes "scan database dict 0 (initial out) = (st, None)"
    and "length_counts st k = Some v"
  shows "1 \<le> unat v \<and> (\<exists>i<db_size database. valid_events database dict i = Inr k)"
proof -
  from scan_histogram [OF assms(1)] assms(2)
  have "v \<noteq> 0" and "\<exists>i<db_size database. valid_events database dict i = Inr k"
    by blast+
  moreover from \<open>v \<noteq> 0\<close> have "unat v \<noteq> 0" by (simp add: unat_eq_0)
  ultimately show ?thesis by simp
qed

theorem C7_no_zero_frequency_witness:
  "1 \<le> unat (1 :: 32 word) \<and> (\<exists>i<db_size example_db2. valid_events example_db2 example_dict i = Inr 2)"
  using C7_no_zero_frequency [OF example_scan2, of 2 1] by simp

subsection \<open>C8: determinism\<close>

text \<open>
  C8: two runs over the same database and dictionary, from any two worlds and with any two
  traversal orders of the hash map, end with the same status and the same histogram; when
  they succeed and both can open the output file, the two outputs are arrays with the same
  elements up to their order.
\<close>

theorem C8_deterministic:
  "fst (main database dict slots1 w1) = fst (main database dict slots2 w2) \<and>
   length_counts (fst (scan database dict 0 (initial (stdout w1)))) =
     length_counts (fst (scan database dict 0 (initial (stdout w2)))) \<and>
   (fst (main database dict slots1 w1) = Returned \<and>
    openable w1 output_path \<and> openable w2 output_path \<and>
    traverses slots1 (length_counts (fst (scan database dict 0 (initial (stdout w1))))) \<and>
    traverses slots2 (length_counts (fst (scan database dict 0 (initial (stdout w1))))) \<longrightarrow>
      (\<exists>js1 js2.
         files (snd (main database dict slots1 w1)) output_path = Some (array js1) \<and>
         files (snd (main database dict slots2 w2)) output_path = Some (array js2) \<and>
         mset js1 = mset js2))"
proof -
  let ?r1 = "scan database dict 0 (initial (stdout w1))"
  let ?r2 = "scan database dict 0 (initial (stdout w2))"
  have "length_counts (initial (stdout w1)) = length_counts (initial (stdout w2))"
    by (simp add: initial_def)
  from scan_cout_independent [OF this, of database dict 0]
  have h: "length_counts (fst ?r1) = length_counts (fst ?r2)" and e: "snd ?r1 = snd ?r2"
    by simp_all
  have m1: "main database dict slots1 w1 =
      (case snd ?r1 of
         Some e \<Rightarrow> (Terminated e, w1\<lparr>stdout := cout (fst ?r1)\<rparr>)
       | None \<Rightarrow> (Returned,
           if openable w1 output_path
           then w1\<lparr>stdout := cout (fst ?r1),
                  files := (files w1)(output_path \<mapsto> to_json slots1 (length_counts (fst ?r1)))\<rparr>
           else w1\<lparr>stdout := cout (fst ?r1)\<rparr>))"
    by (simp add: main_def split: prod.splits option.splits)
  have m2: "main database dict slots2 w2 =
      (case snd ?r1 of
         Some e \<Rightarrow> (Terminated e, w2\<lparr>stdout := cout (fst ?r2)\<rparr>)
       | None \<Rightarrow> (Returned,
           if openable w2 output_path
           then w2\<lparr>stdout := cout (fst ?r2),
                  files := (files w2)(output_path \<mapsto> to_json slots2 (length_counts (fst ?r1)))\<rparr>
           else w2\<lparr>stdout := cout (fst ?r2)\<rparr>))"
    by (simp add: main_def h e split: prod.splits option.splits)
  have status: "fst (main database dict slots1 w1) = fst (main database dict slots2 w2)"
    by (simp add: m1 m2 split: option.splits)
  have out: "\<exists>js1 js2.
         files (snd (main database dict slots1 w1)) output_path = Some (array js1) \<and>
         files (snd (main database dict slots2 w2)) output_path = Some (array js2) \<and>
         mset js1 = mset js2"
    if ret: "fst (main database dict slots1 w1) = Returned"
      and o1: "openable w1 output_path" and o2: "openable w2 output_path"
      and t1: "traverses slots1 (length_counts (fst ?r1))"
      and t2: "traverses slots2 (length_counts (fst ?r1))"
  proof -
    from ret have none: "snd ?r1 = None" by (simp add: m1 split: option.splits)
    let ?js1 = "map to_json_pair (entries slots1 (length_counts (fst ?r1)))"
    let ?js2 = "map to_json_pair (entries slots2 (length_counts (fst ?r1)))"
    have "files (snd (main database dict slots1 w1)) output_path = Some (array ?js1)"
      by (simp add: m1 none o1 to_json_def)
    moreover have "files (snd (main database dict slots2 w2)) output_path = Some (array ?js2)"
      by (simp add: m2 none o2 to_json_def)
    moreover have "mset ?js1 = mset ?js2"
      by (simp add: mset_entries [OF t1] mset_entries [OF t2])
    ultimately show ?thesis by blast
  qed
  from status h out show ?thesis by blast
qed

theorem C8_deterministic_witness:
  "fst (main example_db2 example_dict [0, 2] example_world) =
     fst (main example_db2 example_dict [2, 1, 0] \<lparr>stdout = [''log''], files = Map.empty, openable = (\<lambda>path. True)\<rparr>) \<and>
   (\<exists>js1 js2.
      files (snd (main example_db2 example_dict [0, 2] example_world)) output_path =
        Some (array js1) \<and>
      files (snd (main example_db2 example_dict [2, 1, 0]
          \<lparr>stdout = [''log''], files = Map.empty, openable = (\<lambda>path. True)\<rparr>)) output_path = Some (array js2) \<and>
      mset js1 = mset js2)"
proof -
  have run: "scan example_db2 example_dict 0 (initial (stdout example_world)) =
     (\<lparr>length_counts = [0 \<mapsto> 1, 2 \<mapsto> 1], cout = [''0'']\<rparr>, None)"
    by (simp only: example_world_stdout example_scan2)
  have ret: "fst (main example_db2 example_dict [0, 2] example_world) = Returned"
    by (simp add: main_returned [OF run example_world_openable])
  have o1: "openable example_world output_path"
    by (rule example_world_openable)
  have o2: "openable \<lparr>stdout = [''log''], files = Map.empty, openable = (\<lambda>path. True)\<rparr> output_path"
    by simp
  have t1: "traverses [0, 2]
      (length_counts (fst (scan example_db2 example_dict 0 (initial (stdout example_world)))))"
    by (simp add: run traverses_def)
  have t2: "traverses [2, 1, 0]
      (length_counts (fst (scan example_db2 example_dict 0 (initial (stdout example_world)))))"
    by (simp add: run traverses_def)
  from C8_deterministic [of example_db2 example_dict "[0, 2]" example_world "[2, 1, 0]"
      "\<lparr>stdout = [''log''], files = Map.empty, openable = (\<lambda>path. True)\<rparr>"] ret o1 o2 t1 t2
  show ?thesis by blast
qed

subsection \<open>C9: the empty database\<close>

text \<open>
  C9, as stated, fails: for the database without patients the file holds the empty array
  \<^verbatim>\<open>[]\<close>, not the empty object.
\<close>

theorem C9_counterexample:
  "files (snd (main example_db_empty example_dict [] example_world)) output_path =
     Some (array []) \<and>
   files (snd (main example_db_empty example_dict [] example_world)) output_path \<noteq>
     Some (object [])"
proof -
  have "scan example_db_empty example_dict 0 (initial (stdout example_world)) =
     (\<lparr>length_counts = Map.empty, cout = []\<rparr>, None)"
    by (simp only: example_world_stdout example_scan_empty)
  from main_returned [OF this example_world_openable, of "[]"] show ?thesis
    by (simp add: to_json_def entries_def List.map_filter_simps)
qed

text \<open>
  C9, amended: for a database with zero patients the loop body is never run, the
  histogram is empty and the run returns normally. When the output file can be opened, the
  run writes it, and it holds the serialisation of the empty array; when it cannot be
  opened, nothing is written.
\<close>

theorem C9_empty_database:
  assumes "db_size database = 0"
  shows "scan database dict 0 st = (st, None) \<and>
         length_counts (fst (scan database dict 0 (initial (stdout w)))) = Map.empty \<and>
         fst (main database dict slots w) = Returned \<and>
         (openable w output_path \<longrightarrow>
            main database dict slots w =
              (Returned, w\<lparr>files := (files w)(output_path \<mapsto> array [])\<rparr>)) \<and>
         (\<not> openable w output_path \<longrightarrow> main database dict slots w = (Returned, w))"
proof -
  have fin: "scan database dict 0 s = (s, None)" for s
    using assms by (simp add: scan_done)
  have "entries slots Map.empty = []"
    by (induction slots) (simp_all add: entries_def List.map_filter_simps)
  then have empty: "to_json slots Map.empty = array []" by (simp add: to_json_def)
  have written: "main database dict slots w =
           (Returned, w\<lparr>files := (files w)(output_path \<mapsto> array [])\<rparr>)"
    if "openable w output_path"
    using empty by (simp add: main_returned [OF fin that] initial_def)
  have unwritten: "main database dict slots w = (Returned, w)"
    if "\<not> openable w output_path"
    by (simp add: main_unopened [OF fin that] initial_def)
  have "fst (main database dict slots w) = Returned"
    using written unwritten by (cases "openable w output_path") simp_all
  with fin written unwritten show ?thesis by (simp add: initial_def)
qed

theorem C9_empty_database_witness:
  "main example_db_empty example_dict [5, 7] example_world =
     (Returned, \<lparr>stdout = [], files = [output_path \<mapsto> array []], openable = (\<lambda>path. True)\<rparr>) \<and>
   main example_db_empty example_dict [5, 7] example_world_unwritable =
     (Returned, example_world_unwritable)"
proof -
  have size: "db_size example_db_empty = 0"
    by (simp add: example_db_empty_def)
  have closed: "\<not> openable example_world_unwritable output_path"
    by (simp add: example_world_unwritable_def)
  from C9_empty_database [OF size, of example_dict "initial []" example_world "[5, 7]"]
    example_world_openable [of output_path]
  have "main example_db_empty example_dict [5, 7] example_world =
     (Returned, example_world\<lparr>files := (files example_world)(output_path \<mapsto> array [])\<rparr>)"
    by blast
  moreover from C9_empty_database [OF size, of example_dict "initial []"
      example_world_unwritable "[5, 7]"] closed
  have "main example_db_empty example_dict [5, 7] example_world_unwritable =
     (Returned, example_world_unwritable)"
    by blast
  ultimately show ?thesis by (simp add: example_world_def)
qed

subsection \<open>C10: the counters are 32-bit\<close>

text \<open>
  C10: the per-patient counter and the histogram frequencies are 32-bit unsigned numbers.
  The event loop adds the number of valid events modulo \<open>2 ^ 32\<close>, an increment of a
  frequency adds 1 modulo \<open>2 ^ 32\<close> (the frequency \<open>2 ^ 32 - 1\<close> becomes 0), and both
  values are at most \<open>2 ^ 32 - 1\<close>.
\<close>

theorem C10_counters_wrap:
  assumes "count_events dict evs (c, h) = Inr (c', h')"
  shows "unat c' = (unat c + spec_valid_event_count dict evs) mod 2 ^ 32 \<and>
         unat c' \<le> 2 ^ 32 - 1 \<and>
         unat (the (increment m k k)) =
           (unat (case m k of None \<Rightarrow> 0 | Some v \<Rightarrow> v) + 1) mod 2 ^ 32 \<and>
         unat (the (increment m k k)) \<le> 2 ^ 32 - 1 \<and>
         (m k = Some 4294967295 \<longrightarrow> increment m k k = Some 0)"
proof -
  from count_events_total [OF count_events_succeeds [OF assms], of c h] assms
  have "c' = c + of_nat (spec_valid_event_count dict evs)" by simp
  then have 1: "unat c' = (unat c + spec_valid_event_count dict evs) mod 2 ^ 32"
    by (simp add: unat_word_ariths unat_of_nat mod_simps)
  have bound: "unat x \<le> 2 ^ 32 - 1" for x :: "32 word"
  proof -
    have "unat x < 2 ^ 32" using unsigned_less [of x] by simp
    then show ?thesis by simp
  qed
  have 3: "unat (the (increment m k k)) =
           (unat (case m k of None \<Rightarrow> 0 | Some v \<Rightarrow> v) + 1) mod 2 ^ 32"
    by (simp add: increment_apply unat_word_ariths)
  have 5: "m k = Some 4294967295 \<longrightarrow> increment m k k = Some 0"
    by (simp add: increment_apply)
  from 1 bound [of c'] 3 bound [of "the (increment m k k)"] 5 show ?thesis by blast
qed

theorem C10_counters_wrap_witness:
  "count_events example_dict [\<lparr>code = 1\<rparr>] (4294967295, False) = Inr (0, False) \<and>
   unat (0 :: 32 word) = (unat (4294967295 :: 32 word) +
      spec_valid_event_count example_dict [\<lparr>code = 1\<rparr>]) mod 2 ^ 32 \<and>
   increment [7 \<mapsto> 4294967295] 7 7 = Some 0"
proof -
  have run: "count_events example_dict [\<lparr>code = 1\<rparr>] (4294967295, False) = Inr (0, False)"
    by (simp add: valid_X)
  from C10_counters_wrap [OF run, of "[7 \<mapsto> 4294967295]" 7] run
  show ?thesis by simp
qed

end
